theory Spec2Isabelle
  imports Main
begin

section \<open>JavaScript values and strings\<close>

text \<open>
  The converters of \<^verbatim>\<open>chain_prompt.js\<close> and \<^verbatim>\<open>refined_promot.js\<close> take any JavaScript
  value and test it with \<^verbatim>\<open>typeof\<close> and \<^verbatim>\<open>== null\<close>, so the argument is a tagged value;
  of a value that is not a string only the tag matters to them.
  A string is the list of its code units. A \<^typ>\<open>char\<close> is a code unit below 256, read as
  the code point U+0000 .. U+00FF: the model covers the strings over these code units.
\<close>

datatype js_value =
    JNull
  | JUndefined
  | JBoolean bool
  | JNumber int
  | JArray "js_value list"
  | JString string

text \<open>The character classes of the regular expressions in the source.\<close>

definition isLower :: "char \<Rightarrow> bool" where
  \<comment> \<open>\<^verbatim>\<open>[a-z]\<close>\<close>
  "isLower c = (97 \<le> (of_char c :: nat) \<and> (of_char c :: nat) \<le> 122)"

definition isUpper :: "char \<Rightarrow> bool" where
  \<comment> \<open>\<^verbatim>\<open>[A-Z]\<close>\<close>
  "isUpper c = (65 \<le> (of_char c :: nat) \<and> (of_char c :: nat) \<le> 90)"

definition isDigit :: "char \<Rightarrow> bool" where
  \<comment> \<open>\<^verbatim>\<open>[0-9]\<close>\<close>
  "isDigit c = (48 \<le> (of_char c :: nat) \<and> (of_char c :: nat) \<le> 57)"

definition isAlnum :: "char \<Rightarrow> bool" where
  \<comment> \<open>\<^verbatim>\<open>[a-zA-Z0-9]\<close>, the complement of \<^verbatim>\<open>[^a-zA-Z0-9]\<close>\<close>
  "isAlnum c = (isLower c \<or> isUpper c \<or> isDigit c)"

definition isWhiteSpace :: "char \<Rightarrow> bool" where
  \<comment> \<open>\<^verbatim>\<open>\s\<close>, and what \<^verbatim>\<open>trim\<close> strips: TAB, LF, VT, FF, CR, SPACE and NBSP below 256\<close>
  "isWhiteSpace c = ((9 \<le> (of_char c :: nat) \<and> (of_char c :: nat) \<le> 13)
      \<or> (of_char c :: nat) = 32 \<or> (of_char c :: nat) = 160)"

definition isUnderscoreOrHyphen :: "char \<Rightarrow> bool" where
  \<comment> \<open>\<^verbatim>\<open>[_\-]\<close>\<close>
  "isUnderscoreOrHyphen c = (c = CHR ''_'' \<or> c = CHR ''-'')"

definition isSeparator :: "char \<Rightarrow> bool" where
  \<comment> \<open>\<^verbatim>\<open>[-_\s]\<close>\<close>
  "isSeparator c = (c = CHR ''-'' \<or> c = CHR ''_'' \<or> isWhiteSpace c)"

definition isHyphen :: "char \<Rightarrow> bool" where
  "isHyphen c = (c = CHR ''-'')"

text \<open>
  \<^verbatim>\<open>toLowerCase\<close> maps A-Z, and below 256 also U+00C0 .. U+00DE without the
  multiplication sign U+00D7, to the code unit 32 above. \<^verbatim>\<open>toUpperCase\<close> is applied by
  the source only to strings already cleaned to \<^verbatim>\<open>[a-zA-Z0-9]\<close>, where it maps a-z to
  the code unit 32 below and leaves the rest.
\<close>

definition toLowerChar :: "char \<Rightarrow> char" where
  "toLowerChar c =
     (let n = (of_char c :: nat)
      in if (65 \<le> n \<and> n \<le> 90) \<or> (192 \<le> n \<and> n \<le> 222 \<and> n \<noteq> 215)
         then char_of (n + 32) else c)"

definition toUpperChar :: "char \<Rightarrow> char" where
  "toUpperChar c =
     (let n = (of_char c :: nat)
      in if 97 \<le> n \<and> n \<le> 122 then char_of (n - 32) else c)"

definition toLowerCase :: "string \<Rightarrow> string" where
  "toLowerCase s = map toLowerChar s"

definition toUpperCase :: "string \<Rightarrow> string" where
  "toUpperCase s = map toUpperChar s"

definition trim :: "string \<Rightarrow> string" where
  "trim s = rev (dropWhile isWhiteSpace (rev (dropWhile isWhiteSpace s)))"

definition charAt :: "string \<Rightarrow> nat \<Rightarrow> string" where
  \<comment> \<open>the empty string when the index is out of range\<close>
  "charAt s i = (if i < length s then [s ! i] else [])"

definition slice :: "string \<Rightarrow> nat \<Rightarrow> string" where
  \<comment> \<open>\<^verbatim>\<open>s.slice(n)\<close> for an index \<open>n \<ge> 0\<close>\<close>
  "slice s n = drop n s"

text \<open>
  \<^verbatim>\<open>s.replace(/[C]+/g, r)\<close> for a character class \<open>C\<close>: scanning from the left, every
  maximal run of characters of the class is replaced by \<open>r\<close>.
\<close>

function replaceRuns :: "(char \<Rightarrow> bool) \<Rightarrow> string \<Rightarrow> string \<Rightarrow> string" where
  "replaceRuns p r [] = []"
| "replaceRuns p r (c # cs) =
     (if p c then r @ replaceRuns p r (dropWhile p cs) else c # replaceRuns p r cs)"
  by pat_completeness auto
termination
  by (relation "measure (\<lambda>(p, r, s). length s)")
     (auto simp: length_dropWhile_le le_imp_less_Suc)

text \<open>
  \<^verbatim>\<open>s.split(/[C]+/)\<close>: the substrings between the maximal runs of the class, in order.
  A run at the start or at the end of \<open>s\<close> leaves an empty string there, and the empty
  string splits into one empty string. The result is never empty (\<open>splitRuns_not_Nil\<close>
  below), so the first branch of the \<open>case\<close> is never taken.
\<close>

function splitRuns :: "(char \<Rightarrow> bool) \<Rightarrow> string \<Rightarrow> string list" where
  "splitRuns p [] = [[]]"
| "splitRuns p (c # cs) =
     (if p c then [] # splitRuns p (dropWhile p cs)
      else (case splitRuns p cs of [] \<Rightarrow> [[c]] | w # ws \<Rightarrow> (c # w) # ws))"
  by pat_completeness auto
termination
  by (relation "measure (\<lambda>(p, s). length s)")
     (auto simp: length_dropWhile_le le_imp_less_Suc)

text \<open>\<^verbatim>\<open>ws.join(sep)\<close>.\<close>

fun join :: "string \<Rightarrow> string list \<Rightarrow> string" where
  "join sep [] = []"
| "join sep [w] = w"
| "join sep (w # v # ws) = w @ sep @ join sep (v # ws)"

text \<open>\<^verbatim>\<open>ws.map((word, index) => f(word, index))\<close>, the index counted from \<open>i\<close>.\<close>

fun mapIndexed :: "(string \<Rightarrow> nat \<Rightarrow> string) \<Rightarrow> nat \<Rightarrow> string list \<Rightarrow> string list" where
  "mapIndexed f i [] = []"
| "mapIndexed f i (w # ws) = f w i # mapIndexed f (Suc i) ws"

section \<open>\<^verbatim>\<open>toKebabCase\<close> (chain\_prompt.js)\<close>

text \<open>
  \<^verbatim>\<open>text.replace(/([a-z])([A-Z])/g, '$1 $2')\<close>: a match takes two characters, so the scan
  goes on behind the upper-case letter.
\<close>

fun replaceCamelBoundary :: "string \<Rightarrow> string" where
  "replaceCamelBoundary (a # b # cs) =
     (if isLower a \<and> isUpper b then a # CHR '' '' # b # replaceCamelBoundary cs
      else a # replaceCamelBoundary (b # cs))"
| "replaceCamelBoundary cs = cs"

definition trimHyphens :: "string \<Rightarrow> string" where
  \<comment> \<open>\<^verbatim>\<open>.replace(/^-+|-+$/g, '')\<close>\<close>
  "trimHyphens s = rev (dropWhile isHyphen (rev (dropWhile isHyphen s)))"

definition toKebabCase :: "js_value \<Rightarrow> string" where
  "toKebabCase text =
     (case text of
        JString s \<Rightarrow>
          if s = [] then []
          else
            let words = splitRuns isWhiteSpace
                  (replaceRuns isUnderscoreOrHyphen '' '' (replaceCamelBoundary s));
                words = map toLowerCase words
            in trimHyphens (join ''-'' (filter (\<lambda>w. w \<noteq> []) words))
      | _ \<Rightarrow> [])"

section \<open>\<^verbatim>\<open>camelCase\<close> and \<^verbatim>\<open>dotCase\<close> (refined\_promot.js)\<close>

definition filteredWords :: "string \<Rightarrow> string list" where
  \<comment> \<open>lines 40 to 51 and 175 to 185, on the trimmed input\<close>
  "filteredWords trimmed =
     (let trimmed = replaceRuns isSeparator '' '' trimmed;
          trimmed = trim trimmed;
          words = splitRuns isSeparator trimmed
      in filter (\<lambda>word. length word > 0) words)"

definition camelWord :: "string \<Rightarrow> nat \<Rightarrow> string" where
  \<comment> \<open>the callback of lines 58 to 73\<close>
  "camelWord word index =
     (let cleaned = filter isAlnum word
      in if length cleaned = 0 then []
         else if index = 0 then toLowerCase (charAt cleaned 0) @ slice cleaned 1
         else toUpperCase (charAt cleaned 0) @ toLowerCase (slice cleaned 1))"

definition camelCase :: "js_value \<Rightarrow> string" where
  "camelCase input =
     (case input of
        JNull \<Rightarrow> []
      | JUndefined \<Rightarrow> []
      | JString s \<Rightarrow>
          let trimmed = trim s
          in if length trimmed = 0 then []
             else
               let ws = filteredWords trimmed
               in if length ws = 0 then []
                  else
                    let processedWords = mapIndexed camelWord 0 ws
                    in join [] (filter (\<lambda>word. length word > 0) processedWords)
      | _ \<Rightarrow> [])"

definition dotWord :: "string \<Rightarrow> string" where
  \<comment> \<open>the callback of lines 192 to 196\<close>
  "dotWord word = (let cleaned = filter isAlnum word in toLowerCase cleaned)"

definition dotCase :: "js_value \<Rightarrow> string" where
  "dotCase input =
     (case input of
        JNull \<Rightarrow> []
      | JUndefined \<Rightarrow> []
      | JString s \<Rightarrow>
          let trimmed = trim s
          in if length trimmed = 0 then []
             else
               let ws = filteredWords trimmed
               in if length ws = 0 then []
                  else
                    let processedWords = map dotWord ws
                    in join ''.'' (filter (\<lambda>word. length word > 0) processedWords)
      | _ \<Rightarrow> [])"

section \<open>\<^verbatim>\<open>toCamelCase\<close> (refined\_promot.js, line 217)\<close>

text \<open>The body holds a comment only: the call returns \<^verbatim>\<open>undefined\<close>.\<close>

definition toCamelCase :: "js_value \<Rightarrow> js_value" where
  "toCamelCase str = JUndefined"

section \<open>Reference tokenisation\<close>

text \<open>
  The tokenizer as the specification words it, to compare the converters with. These
  definitions follow the five steps of the specification, not the source.
\<close>

text \<open>
  Steps 2, 3 and 5: a run of separators, in any mixture, is one word boundary, so the words
  are the non-empty strings between separator characters, in order.
\<close>

fun splitEach :: "(char \<Rightarrow> bool) \<Rightarrow> string \<Rightarrow> string list" where
  "splitEach p [] = [[]]"
| "splitEach p (c # cs) =
     (if p c then [] # splitEach p cs
      else (case splitEach p cs of [] \<Rightarrow> [[c]] | w # ws \<Rightarrow> (c # w) # ws))"

definition wordsBetween :: "(char \<Rightarrow> bool) \<Rightarrow> string \<Rightarrow> string list" where
  "wordsBetween p s = filter (\<lambda>w. w \<noteq> []) (splitEach p s)"

text \<open>
  Step 1: a boundary, here a space, between a lower-case letter and an upper-case letter
  right behind it, and nowhere else.
\<close>

fun insertCaseBoundaries :: "string \<Rightarrow> string" where
  "insertCaseBoundaries (a # b # cs) =
     (if isLower a \<and> isUpper b then a # CHR '' '' # insertCaseBoundaries (b # cs)
      else a # insertCaseBoundaries (b # cs))"
| "insertCaseBoundaries cs = cs"

text \<open>
  Steps 2 to 5 without the case boundaries of step 1: the words between the separators,
  each stripped of what is not an ASCII letter or digit, those left empty dropped.
\<close>

definition cleanedWords :: "string \<Rightarrow> string list" where
  "cleanedWords s = filter (\<lambda>w. w \<noteq> []) (map (filter isAlnum) (wordsBetween isSeparator s))"

section \<open>Properties of the string operations\<close>

subsection \<open>Characters\<close>

lemma toLowerChar_not_upper: "\<not> isUpper (toLowerChar c)"
  by (auto simp: toLowerChar_def isUpper_def Let_def)

lemma toLowerChar_idem: "toLowerChar (toLowerChar c) = toLowerChar c"
  by (auto simp: toLowerChar_def Let_def)

lemma toLowerChar_alnum: "isAlnum c \<Longrightarrow> isAlnum (toLowerChar c)"
  by (auto simp: toLowerChar_def isUpper_def isAlnum_def isLower_def isDigit_def Let_def)

lemma toUpperChar_alnum: "isAlnum c \<Longrightarrow> isAlnum (toUpperChar c)"
  by (auto simp: toUpperChar_def isUpper_def isAlnum_def isLower_def isDigit_def Let_def)

lemma hyphen_code: "(c = CHR ''-'') = ((of_char c :: nat) = 45)"
  using of_char_eq_iff [of c "CHR ''-''", where ?'a = nat] by simp

lemma underscore_code: "(c = CHR ''_'') = ((of_char c :: nat) = 95)"
  using of_char_eq_iff [of c "CHR ''_''", where ?'a = nat] by simp

lemma toLowerChar_separator: "isSeparator (toLowerChar c) = isSeparator c"
  by (auto simp: toLowerChar_def isSeparator_def isWhiteSpace_def Let_def
        hyphen_code underscore_code)

lemma alnum_not_separator: "isAlnum c \<Longrightarrow> \<not> isSeparator c"
  by (auto simp: isSeparator_def isWhiteSpace_def isAlnum_def isLower_def isDigit_def isUpper_def
        hyphen_code underscore_code)

lemma separator_not_letter: "isSeparator c \<Longrightarrow> \<not> isLower c \<and> \<not> isUpper c"
  by (auto simp: isSeparator_def isWhiteSpace_def isLower_def isUpper_def
        hyphen_code underscore_code)

subsection \<open>Words between separators\<close>

lemma splitEach_not_Nil: "splitEach p s \<noteq> []"
  by (induction s) (auto split: list.splits)

lemma splitEach_append:
  "p c \<Longrightarrow> splitEach p (xs @ c # ys) = splitEach p xs @ splitEach p ys"
proof (induction xs)
  case Nil
  then show ?case by simp
next
  case (Cons x xs)
  then show ?case
    using splitEach_not_Nil [of p xs] by (auto split: list.splits)
qed

lemma splitEach_free: "\<forall>c\<in>set s. \<not> p c \<Longrightarrow> splitEach p s = [s]"
  by (induction s) auto

lemma wordsBetween_Nil: "wordsBetween p [] = []"
  by (simp add: wordsBetween_def)

lemma wordsBetween_append:
  "p c \<Longrightarrow> wordsBetween p (xs @ c # ys) = wordsBetween p xs @ wordsBetween p ys"
  by (simp add: wordsBetween_def splitEach_append)

lemma wordsBetween_Cons_sep: "p c \<Longrightarrow> wordsBetween p (c # s) = wordsBetween p s"
  by (simp add: wordsBetween_def)

lemma wordsBetween_free:
  "\<forall>c\<in>set s. \<not> p c \<Longrightarrow> wordsBetween p s = (if s = [] then [] else [s])"
  by (simp add: wordsBetween_def splitEach_free)

lemma wordsBetween_all_sep: "\<forall>c\<in>set s. p c \<Longrightarrow> wordsBetween p s = []"
  by (induction s) (auto simp: wordsBetween_Nil wordsBetween_Cons_sep)

lemma wordsBetween_run:
  "\<forall>c\<in>set run. p c \<Longrightarrow> wordsBetween p (run @ s) = wordsBetween p s"
  by (induction run) (auto simp: wordsBetween_Cons_sep)

lemma wordsBetween_append_run:
  assumes "\<forall>c\<in>set run. p c"
  shows "wordsBetween p (s @ run) = wordsBetween p s"
proof (cases run)
  case Nil
  then show ?thesis by simp
next
  case (Cons c cs)
  with assms have "p c" and "\<forall>c\<in>set cs. p c" by simp_all
  then show ?thesis
    using Cons by (simp add: wordsBetween_append wordsBetween_all_sep)
qed

lemma wordsBetween_between_run:
  assumes "run \<noteq> []" and "\<forall>c\<in>set run. p c"
  shows "wordsBetween p (u @ run @ v) = wordsBetween p u @ wordsBetween p v"
proof -
  obtain c cs where run: "run = c # cs" using assms(1) by (cases run) auto
  with assms(2) have "p c" and "\<forall>c\<in>set cs. p c" by simp_all
  then show ?thesis
    by (simp add: run wordsBetween_append wordsBetween_run)
qed

lemma wordsBetween_dropWhile:
  "(\<And>c. q c \<Longrightarrow> p c) \<Longrightarrow> wordsBetween p (dropWhile q s) = wordsBetween p s"
  by (induction s) (auto simp: wordsBetween_Cons_sep)

lemma wordsBetween_dropWhile_end:
  assumes "\<And>c. q c \<Longrightarrow> p c"
  shows "wordsBetween p (rev (dropWhile q (rev s))) = wordsBetween p s"
proof -
  have "s = rev (dropWhile q (rev s)) @ rev (takeWhile q (rev s))"
    by (metis rev_append rev_rev_ident takeWhile_dropWhile_id)
  moreover have "\<forall>c\<in>set (rev (takeWhile q (rev s))). p c"
    using assms by (auto dest: set_takeWhileD)
  ultimately show ?thesis
    using wordsBetween_append_run [of "rev (takeWhile q (rev s))" p "rev (dropWhile q (rev s))"]
    by simp
qed

lemma wordsBetween_trim:
  "(\<And>c. isWhiteSpace c \<Longrightarrow> p c) \<Longrightarrow> wordsBetween p (trim s) = wordsBetween p s"
  by (simp add: trim_def wordsBetween_dropWhile_end wordsBetween_dropWhile)

lemma wordsBetween_nonempty: "w \<in> set (wordsBetween p s) \<Longrightarrow> w \<noteq> []"
  by (simp add: wordsBetween_def)

lemma splitEach_no_sep_all: "\<forall>w\<in>set (splitEach p s). \<forall>c\<in>set w. \<not> p c"
  by (induction s) (auto split: list.splits)

lemma splitEach_no_sep: "w \<in> set (splitEach p s) \<Longrightarrow> c \<in> set w \<Longrightarrow> \<not> p c"
  using splitEach_no_sep_all by blast

lemma wordsBetween_no_sep: "w \<in> set (wordsBetween p s) \<Longrightarrow> c \<in> set w \<Longrightarrow> \<not> p c"
  by (auto simp: wordsBetween_def dest: splitEach_no_sep)

text \<open>Splitting at the first separator.\<close>

lemma first_separator_cases:
  obtains (free) "\<forall>c\<in>set s. \<not> p c"
  | (sep) a c b where "s = a @ c # b" and "\<forall>x\<in>set a. \<not> p x" and "p c"
proof (cases "\<forall>c\<in>set s. \<not> p c")
  case True
  then show ?thesis by (rule free)
next
  case False
  then obtain a c b where "s = a @ c # b" "\<forall>x\<in>set a. \<not> p x" "p c"
    using split_list_first_prop [of s p] by auto
  then show ?thesis by (rule sep)
qed

lemma splitRuns_not_Nil: "splitRuns p s \<noteq> []"
  by (induction p s rule: splitRuns.induct) (auto split: list.splits)

lemma splitRuns_free: "\<forall>c\<in>set s. \<not> p c \<Longrightarrow> splitRuns p s = [s]"
  by (induction s) auto

lemma splitRuns_first:
  "\<forall>x\<in>set a. \<not> p x \<Longrightarrow> p c \<Longrightarrow> splitRuns p (a @ c # b) = a # splitRuns p (dropWhile p b)"
  by (induction a) auto

lemma filter_splitRuns: "filter (\<lambda>w. w \<noteq> []) (splitRuns p s) = wordsBetween p s"
proof (induction s rule: length_induct)
  case (1 s)
  show ?case
  proof (cases s p rule: first_separator_cases)
    case free
    then show ?thesis by (simp add: splitRuns_free wordsBetween_free)
  next
    case (sep a c b)
    have "length (dropWhile p b) < length s"
      using sep(1) length_dropWhile_le [of p b] by simp
    with 1 have "filter (\<lambda>w. w \<noteq> []) (splitRuns p (dropWhile p b)) = wordsBetween p (dropWhile p b)"
      by blast
    then show ?thesis
      using sep by (simp add: splitRuns_first wordsBetween_append wordsBetween_free
          wordsBetween_dropWhile)
  qed
qed

lemma replaceRuns_free: "\<forall>c\<in>set s. \<not> q c \<Longrightarrow> replaceRuns q r s = s"
  by (induction s) auto

lemma replaceRuns_prefix_free:
  "\<forall>x\<in>set a. \<not> q x \<Longrightarrow> replaceRuns q r (a @ s) = a @ replaceRuns q r s"
  by (induction a) auto

lemma wordsBetween_replaceRuns:
  assumes sp: "p (CHR '' '')"
  shows "wordsBetween p (replaceRuns q '' '' s) = wordsBetween (\<lambda>c. p c \<or> q c) s"
proof (induction s rule: length_induct)
  case (1 s)
  let ?pq = "\<lambda>c. p c \<or> q c"
  show ?case
  proof (cases s ?pq rule: first_separator_cases)
    case free
    then show ?thesis by (simp add: replaceRuns_free wordsBetween_free)
  next
    case (sep a c b)
    have a: "wordsBetween p a = wordsBetween ?pq a"
      using sep(2) by (simp add: wordsBetween_free)
    have aq: "\<forall>x\<in>set a. \<not> q x" using sep(2) by simp
    show ?thesis
    proof (cases "q c")
      case True
      have "length (dropWhile q b) < length s"
        using sep(1) length_dropWhile_le [of q b] by simp
      with 1 have "wordsBetween p (replaceRuns q '' '' (dropWhile q b))
          = wordsBetween ?pq (dropWhile q b)"
        by blast
      also have "\<dots> = wordsBetween ?pq b"
        by (rule wordsBetween_dropWhile) simp
      finally show ?thesis
        using sep True sp aq a
        by (simp add: replaceRuns_prefix_free wordsBetween_append [of p] wordsBetween_append [of ?pq])
    next
      case False
      with sep(3) have pc: "p c" by simp
      have "length b < length s" using sep(1) by simp
      with 1 have "wordsBetween p (replaceRuns q '' '' b) = wordsBetween ?pq b"
        by blast
      then show ?thesis
        using sep False pc aq a
        by (simp add: replaceRuns_prefix_free wordsBetween_append [of p] wordsBetween_append [of ?pq])
    qed
  qed
qed

subsection \<open>Joining\<close>

lemma join_Cons: "join sep (w # ws) = (if ws = [] then w else w @ sep @ join sep ws)"
  by (cases ws) auto

lemma join_empty_sep: "join [] ws = concat ws"
  by (induction ws) (auto simp: join_Cons)

lemma join_eq_Nil: "\<forall>w\<in>set ws. w \<noteq> [] \<Longrightarrow> (join sep ws = []) = (ws = [])"
  by (cases ws) (auto simp: join_Cons)

lemma hd_join: "\<forall>w\<in>set ws. w \<noteq> [] \<Longrightarrow> ws \<noteq> [] \<Longrightarrow> hd (join sep ws) = hd (hd ws)"
  by (cases ws) (auto simp: join_Cons)

lemma last_join:
  "\<forall>w\<in>set ws. w \<noteq> [] \<Longrightarrow> ws \<noteq> [] \<Longrightarrow> last (join sep ws) = last (last ws)"
proof (induction ws)
  case Nil
  then show ?case by simp
next
  case (Cons w ws)
  then show ?case
    by (cases ws) (auto simp: join_Cons join_eq_Nil)
qed

lemma set_join: "set (join sep ws) \<subseteq> set sep \<union> \<Union>(set ` set ws)"
  by (induction ws) (auto simp: join_Cons split: if_splits)

lemma strip_both_ends:
  assumes "x = [] \<or> (\<not> P (hd x) \<and> \<not> P (last x))"
  shows "rev (dropWhile P (rev (dropWhile P x))) = x"
proof (cases x)
  case Nil
  then show ?thesis by simp
next
  case (Cons a as)
  with assms have "\<not> P (hd x)" and "\<not> P (last x)" by simp_all
  moreover have "hd (rev x) = last x" using Cons by (simp add: hd_rev)
  ultimately have "dropWhile P x = x" and "dropWhile P (rev x) = rev x"
    by (simp_all add: dropWhile_eq_self_iff)
  then show ?thesis by simp
qed

subsection \<open>The converters on the words between separators\<close>

lemma toLowerCase_Nil: "(toLowerCase w = []) = (w = [])"
  by (simp add: toLowerCase_def)

lemma separator_split: "(\<lambda>c. isWhiteSpace c \<or> isUnderscoreOrHyphen c) = isSeparator"
  by (auto simp: isSeparator_def isUnderscoreOrHyphen_def)

lemma whitespace_space: "isWhiteSpace (CHR '' '')"
  by (simp add: isWhiteSpace_def)

lemma separator_space: "isSeparator (CHR '' '')"
  by (simp add: isSeparator_def isWhiteSpace_def)

lemma filteredWords_eq: "filteredWords s = wordsBetween isSeparator s"
proof -
  have "filteredWords s = wordsBetween isSeparator (trim (replaceRuns isSeparator '' '' s))"
    by (simp add: filteredWords_def filter_splitRuns)
  also have "\<dots> = wordsBetween isSeparator (replaceRuns isSeparator '' '' s)"
    by (rule wordsBetween_trim) (simp add: isSeparator_def)
  also have "\<dots> = wordsBetween isSeparator s"
    using wordsBetween_replaceRuns [of isSeparator isSeparator s] by (simp add: separator_space)
  finally show ?thesis .
qed

lemma filteredWords_trim: "filteredWords (trim s) = wordsBetween isSeparator s"
  unfolding filteredWords_eq by (rule wordsBetween_trim) (simp add: isSeparator_def)

lemma trim_Nil_words: "trim s = [] \<Longrightarrow> wordsBetween isSeparator s = []"
  using filteredWords_trim [of s] by (simp add: filteredWords_eq wordsBetween_Nil)

lemma camelCase_words:
  "camelCase (JString s)
     = join [] (filter (\<lambda>w. w \<noteq> []) (mapIndexed camelWord 0 (wordsBetween isSeparator s)))"
proof (cases "trim s = []")
  case True
  then show ?thesis by (simp add: camelCase_def trim_Nil_words)
next
  case False
  then show ?thesis
    by (cases "wordsBetween isSeparator s = []") (simp_all add: camelCase_def filteredWords_trim)
qed

lemma dotCase_words:
  "dotCase (JString s)
     = join ''.'' (filter (\<lambda>w. w \<noteq> []) (map dotWord (wordsBetween isSeparator s)))"
proof (cases "trim s = []")
  case True
  then show ?thesis by (simp add: dotCase_def trim_Nil_words)
next
  case False
  then show ?thesis
    by (cases "wordsBetween isSeparator s = []") (simp_all add: dotCase_def filteredWords_trim)
qed

lemma kebab_words_split:
  "filter (\<lambda>w. w \<noteq> []) (splitRuns isWhiteSpace (replaceRuns isUnderscoreOrHyphen '' '' t))
     = wordsBetween isSeparator t"
  using wordsBetween_replaceRuns [of isWhiteSpace isUnderscoreOrHyphen t]
  by (simp add: filter_splitRuns separator_split whitespace_space)

lemma toLowerChar_hyphen: "isHyphen (toLowerChar c) = isHyphen c"
  by (auto simp: toLowerChar_def isHyphen_def Let_def hyphen_code)

lemma lower_word_ends:
  assumes "w \<in> set (wordsBetween isSeparator t)"
  shows "toLowerCase w \<noteq> [] \<and> \<not> isHyphen (hd (toLowerCase w)) \<and> \<not> isHyphen (last (toLowerCase w))"
proof -
  from assms have ne: "w \<noteq> []" by (rule wordsBetween_nonempty)
  then have "hd w \<in> set w" and "last w \<in> set w" by simp_all
  with assms have "\<not> isSeparator (hd w)" and "\<not> isSeparator (last w)"
    by (auto dest: wordsBetween_no_sep)
  then have "\<not> isHyphen (hd w)" and "\<not> isHyphen (last w)"
    by (auto simp: isSeparator_def isHyphen_def)
  then show ?thesis
    using ne by (simp add: toLowerCase_def hd_map last_map toLowerChar_hyphen)
qed

lemma trimHyphens_join:
  "trimHyphens (join ''-'' (map toLowerCase (wordsBetween isSeparator t)))
     = join ''-'' (map toLowerCase (wordsBetween isSeparator t))"
proof -
  let ?L = "map toLowerCase (wordsBetween isSeparator t)"
  have ne: "\<forall>w\<in>set ?L. w \<noteq> []" using lower_word_ends by auto
  show ?thesis
  proof (cases "?L = []")
    case True
    then show ?thesis by (simp add: trimHyphens_def)
  next
    case False
    have "hd ?L \<in> set ?L" and "last ?L \<in> set ?L"
      by (rule hd_in_set [OF False], rule last_in_set [OF False])
    then have "\<not> isHyphen (hd (hd ?L))" and "\<not> isHyphen (last (last ?L))"
      using lower_word_ends by auto
    then have "\<not> isHyphen (hd (join ''-'' ?L))" and "\<not> isHyphen (last (join ''-'' ?L))"
      using ne False by (simp_all add: hd_join last_join)
    then show ?thesis
      unfolding trimHyphens_def by (intro strip_both_ends) simp
  qed
qed

lemma toKebabCase_words:
  "toKebabCase (JString s)
     = join ''-'' (map toLowerCase (wordsBetween isSeparator (replaceCamelBoundary s)))"
proof (cases "s = []")
  case True
  then show ?thesis by (simp add: toKebabCase_def wordsBetween_Nil)
next
  case False
  have "filter (\<lambda>w. w \<noteq> [])
          (map toLowerCase (splitRuns isWhiteSpace
             (replaceRuns isUnderscoreOrHyphen '' '' (replaceCamelBoundary s))))
        = map toLowerCase (wordsBetween isSeparator (replaceCamelBoundary s))"
    by (simp add: filter_map comp_def toLowerCase_Nil kebab_words_split)
  then show ?thesis
    using False by (simp add: toKebabCase_def trimHyphens_join)
qed

subsection \<open>Case boundaries\<close>

lemma replaceCamelBoundary_eq: "replaceCamelBoundary s = insertCaseBoundaries s"
proof (induction s rule: replaceCamelBoundary.induct)
  case (1 a b cs)
  have "isUpper b \<Longrightarrow> insertCaseBoundaries (b # cs) = b # insertCaseBoundaries cs"
    by (cases cs) (auto simp: isUpper_def isLower_def)
  with 1 show ?case by simp
qed simp_all

lemma insertCaseBoundaries_no_upper:
  "\<forall>c\<in>set s. \<not> isUpper c \<Longrightarrow> insertCaseBoundaries s = s"
  by (induction s rule: insertCaseBoundaries.induct) auto

lemma insertCaseBoundaries_no_lower:
  "\<forall>c\<in>set s. \<not> isLower c \<Longrightarrow> insertCaseBoundaries s = s"
  by (induction s rule: insertCaseBoundaries.induct) auto

lemma insertCaseBoundaries_Cons:
  "\<not> isLower c \<Longrightarrow> insertCaseBoundaries (c # v) = c # insertCaseBoundaries v"
  by (cases v) auto

lemma insertCaseBoundaries_append:
  "\<not> isLower c \<Longrightarrow> \<not> isUpper c \<Longrightarrow>
     insertCaseBoundaries (u @ c # v) = insertCaseBoundaries u @ c # insertCaseBoundaries v"
  by (induction u rule: insertCaseBoundaries.induct) (auto simp: insertCaseBoundaries_Cons)

lemma insertCaseBoundaries_run:
  "\<forall>c\<in>set run. \<not> isLower c \<Longrightarrow> insertCaseBoundaries (run @ v) = run @ insertCaseBoundaries v"
  by (induction run) (auto simp: insertCaseBoundaries_Cons)

lemma insertCaseBoundaries_between:
  assumes "run \<noteq> []" and "\<forall>c\<in>set run. isSeparator c"
  shows "insertCaseBoundaries (u @ run @ v)
           = insertCaseBoundaries u @ run @ insertCaseBoundaries v"
proof -
  obtain c cs where run: "run = c # cs" using assms(1) by (cases run) auto
  with assms(2) have c: "\<not> isLower c" "\<not> isUpper c" and cs: "\<forall>c\<in>set cs. \<not> isLower c"
    by (auto dest: separator_not_letter)
  show ?thesis
    by (simp add: run insertCaseBoundaries_append [OF c] insertCaseBoundaries_run [OF cs])
qed

lemma wordsBetween_join:
  assumes "\<forall>w\<in>set ws. w \<noteq> [] \<and> (\<forall>c\<in>set w. \<not> p c)" and "sep \<noteq> []" and "\<forall>c\<in>set sep. p c"
  shows "wordsBetween p (join sep ws) = ws"
  using assms(1)
proof (induction ws)
  case Nil
  then show ?case by (simp add: wordsBetween_Nil)
next
  case (Cons w ws)
  then have w: "wordsBetween p w = [w]" by (simp add: wordsBetween_free)
  show ?case
  proof (cases "ws = []")
    case True
    then show ?thesis using w by simp
  next
    case False
    then show ?thesis
      using Cons w wordsBetween_between_run [OF assms(2,3), of w "join sep ws"]
      by (simp add: join_Cons)
  qed
qed

subsection \<open>Collapsing a run of separators\<close>

lemma plain_separator: "c = CHR '' '' \<or> c = CHR ''-'' \<or> c = CHR ''_'' \<Longrightarrow> isSeparator c"
  by (auto simp: isSeparator_def isWhiteSpace_def)

lemma words_run_collapse:
  assumes "run \<noteq> []" and "\<forall>c\<in>set run. isSeparator c" and "isSeparator sep"
  shows "wordsBetween isSeparator (u @ run @ v) = wordsBetween isSeparator (u @ [sep] @ v)"
  using wordsBetween_between_run [OF assms(1,2), of u v] assms(3)
  by (simp add: wordsBetween_append)

lemma boundary_words_run_collapse:
  assumes "run \<noteq> []" and "\<forall>c\<in>set run. isSeparator c" and "isSeparator sep"
  shows "wordsBetween isSeparator (insertCaseBoundaries (u @ run @ v))
           = wordsBetween isSeparator (insertCaseBoundaries (u @ [sep] @ v))"
proof -
  have "insertCaseBoundaries (u @ [sep] @ v)
          = insertCaseBoundaries u @ [sep] @ insertCaseBoundaries v"
    using assms(3) by (intro insertCaseBoundaries_between) simp_all
  then show ?thesis
    using words_run_collapse [OF assms, of "insertCaseBoundaries u" "insertCaseBoundaries v"]
    by (simp add: insertCaseBoundaries_between [OF assms(1,2)])
qed

subsection \<open>Inputs that are not a string or hold white space only\<close>

lemma non_string_empty:
  "\<forall>s. input \<noteq> JString s \<Longrightarrow> toKebabCase input = [] \<and> camelCase input = [] \<and> dotCase input = []"
  by (cases input) (simp_all add: toKebabCase_def camelCase_def dotCase_def)

lemma whitespace_only_empty:
  assumes "\<forall>c\<in>set s. isWhiteSpace c"
  shows "toKebabCase (JString s) = [] \<and> camelCase (JString s) = [] \<and> dotCase (JString s) = []"
proof -
  from assms have sep: "\<forall>c\<in>set s. isSeparator c" by (simp add: isSeparator_def)
  then have "\<forall>c\<in>set s. \<not> isUpper c" by (auto dest: separator_not_letter)
  then have "replaceCamelBoundary s = s"
    by (simp add: replaceCamelBoundary_eq insertCaseBoundaries_no_upper)
  then show ?thesis
    using sep by (simp add: toKebabCase_words camelCase_words dotCase_words wordsBetween_all_sep)
qed

subsection \<open>The output of \<^verbatim>\<open>dotCase\<close>\<close>

lemma dot_words: "filter (\<lambda>w. w \<noteq> []) (map dotWord ws)
    = map toLowerCase (filter (\<lambda>w. w \<noteq> []) (map (filter isAlnum) ws))"
  by (induction ws) (auto simp: dotWord_def toLowerCase_Nil)

lemma dotCase_cleanedWords:
  "dotCase (JString s) = join ''.'' (map toLowerCase (cleanedWords s))"
  by (simp add: dotCase_words dot_words cleanedWords_def)

lemma cleanedWords_alnum: "w \<in> set (cleanedWords s) \<Longrightarrow> w \<noteq> [] \<and> (\<forall>c\<in>set w. isAlnum c)"
  by (auto simp: cleanedWords_def)

lemma toLowerChar_lower_or_digit: "isAlnum c \<Longrightarrow> isLower (toLowerChar c) \<or> isDigit (toLowerChar c)"
  by (auto simp: toLowerChar_def isUpper_def isAlnum_def isLower_def isDigit_def Let_def)

lemma dotCase_chars:
  "c \<in> set (dotCase input) \<Longrightarrow> isLower c \<or> isDigit c \<or> c = CHR ''.''"
proof (cases input)
  case (JString s)
  assume "c \<in> set (dotCase input)"
  then have "c \<in> set ''.'' \<union> \<Union>(set ` set (map toLowerCase (cleanedWords s)))"
    using set_join [of "''.''" "map toLowerCase (cleanedWords s)"]
    by (auto simp: JString dotCase_cleanedWords)
  then show ?thesis
    by (auto simp: toLowerCase_def dest!: cleanedWords_alnum toLowerChar_lower_or_digit)
qed (simp_all add: dotCase_def)

subsection \<open>Strings of letters and digits\<close>

lemma upper_not_lower: "isUpper c \<Longrightarrow> \<not> isLower c"
  by (auto simp: isUpper_def isLower_def)

lemma insertCaseBoundaries_lower_upper:
  assumes "u \<noteq> []" and "\<forall>c\<in>set u. isLower c" and "v \<noteq> []" and "\<forall>c\<in>set v. isUpper c"
  shows "insertCaseBoundaries (u @ v) = u @ CHR '' '' # v"
  using assms(1,2)
proof (induction u rule: list_nonempty_induct)
  case (single a)
  obtain b bs where v: "v = b # bs" using assms(3) by (cases v) auto
  have "insertCaseBoundaries v = v"
    using assms(4) by (intro insertCaseBoundaries_no_lower) (auto dest: upper_not_lower)
  then show ?case using single assms(4) v by simp
next
  case (cons a u)
  then obtain a' u' where u: "u = a' # u'" by (cases u) auto
  with cons have "\<not> isUpper a'" by (auto dest: upper_not_lower)
  with cons show ?case by (simp add: u)
qed

lemma toLowerCase_fix: "\<forall>c\<in>set s. isLower c \<or> isDigit c \<Longrightarrow> toLowerCase s = s"
  unfolding toLowerCase_def
  by (intro map_idI) (auto simp: toLowerChar_def isLower_def isDigit_def Let_def)

lemma toKebabCase_upper_run:
  assumes "\<forall>c\<in>set s. isUpper c"
  shows "toKebabCase (JString s) = toLowerCase s"
proof -
  have "insertCaseBoundaries s = s"
    using assms by (intro insertCaseBoundaries_no_lower) (auto dest: upper_not_lower)
  moreover have "\<forall>c\<in>set s. \<not> isSeparator c"
    using assms by (auto dest: separator_not_letter)
  ultimately show ?thesis
    by (simp add: toKebabCase_words replaceCamelBoundary_eq wordsBetween_free toLowerCase_def)
qed

lemma toKebabCase_lower_upper:
  assumes "u \<noteq> []" and "\<forall>c\<in>set u. isLower c" and "v \<noteq> []" and "\<forall>c\<in>set v. isUpper c"
  shows "toKebabCase (JString (u @ v)) = u @ ''-'' @ toLowerCase v"
proof -
  have u: "\<forall>c\<in>set u. \<not> isSeparator c" and v: "\<forall>c\<in>set v. \<not> isSeparator c"
    using assms(2,4) by (auto dest: separator_not_letter)
  have "wordsBetween isSeparator (u @ CHR '' '' # v) = [u, v]"
    using u v assms(1,3) by (simp add: wordsBetween_append separator_space wordsBetween_free)
  moreover have "toLowerCase u = u"
    using assms(2) by (intro toLowerCase_fix) simp
  ultimately show ?thesis
    by (simp add: toKebabCase_words replaceCamelBoundary_eq
        insertCaseBoundaries_lower_upper [OF assms])
qed

lemma alnum_one_word:
  "\<forall>c\<in>set s. isAlnum c \<Longrightarrow> wordsBetween isSeparator s = (if s = [] then [] else [s])"
  by (intro wordsBetween_free) (auto dest: alnum_not_separator)

lemma filter_alnum_id: "\<forall>c\<in>set s. isAlnum c \<Longrightarrow> filter isAlnum s = s"
  by (simp add: filter_id_conv)

lemma dotCase_alnum:
  assumes "\<forall>c\<in>set s. isAlnum c"
  shows "dotCase (JString s) = toLowerCase s"
  using assms
  by (simp add: dotCase_words alnum_one_word dotWord_def filter_alnum_id toLowerCase_def)

lemma camelCase_alnum:
  assumes "\<forall>c\<in>set s. isAlnum c"
  shows "camelCase (JString s) = toLowerCase (charAt s 0) @ slice s 1"
  using assms
  by (simp add: camelCase_words alnum_one_word camelWord_def filter_alnum_id toLowerCase_def
      charAt_def slice_def)

subsection \<open>The output of \<^verbatim>\<open>camelCase\<close>\<close>

lemma filteredWords_Nil: "filteredWords [] = []"
  by (simp add: filteredWords_eq wordsBetween_Nil)

lemma charAt_subset: "set (charAt s i) \<subseteq> set s"
  by (auto simp: charAt_def)

lemma slice_subset: "set (slice s n) \<subseteq> set s"
  by (auto simp: slice_def dest: in_set_dropD)

lemma cased_chars:
  assumes "\<forall>x\<in>set a \<union> set b. isAlnum x"
  shows "\<forall>x\<in>set (toLowerCase a @ b). isAlnum x"
    and "\<forall>x\<in>set (toUpperCase a @ toLowerCase b). isAlnum x"
  using assms
  by (auto simp: toLowerCase_def toUpperCase_def toLowerChar_alnum toUpperChar_alnum)

lemma camelWord_chars: "c \<in> set (camelWord w i) \<Longrightarrow> isAlnum c"
proof -
  assume c: "c \<in> set (camelWord w i)"
  define cl where "cl = filter isAlnum w"
  have "\<forall>x\<in>set cl. isAlnum x" by (simp add: cl_def)
  then have "\<forall>x\<in>set (charAt cl 0) \<union> set (slice cl 1). isAlnum x"
    using charAt_subset [of cl 0] slice_subset [of cl 1] by blast
  note cased_chars [OF this]
  moreover have "camelWord w i = [] \<or> camelWord w i = toLowerCase (charAt cl 0) @ slice cl 1
      \<or> camelWord w i = toUpperCase (charAt cl 0) @ toLowerCase (slice cl 1)"
    unfolding camelWord_def cl_def Let_def by presburger
  ultimately show ?thesis using c by fastforce
qed

lemma mapIndexed_chars:
  "\<forall>x\<in>set (mapIndexed camelWord i ws). \<forall>c\<in>set x. isAlnum c"
  by (induction ws arbitrary: i) (auto dest: camelWord_chars)

lemma camelCase_chars: "c \<in> set (camelCase input) \<Longrightarrow> isAlnum c"
proof (cases input)
  case (JString s)
  assume "c \<in> set (camelCase input)"
  then show ?thesis
    using mapIndexed_chars [of 0 "wordsBetween isSeparator s"]
    by (auto simp: JString camelCase_words join_empty_sep)
qed (simp_all add: camelCase_def)

lemma camelCase_first_word:
  assumes "filteredWords (trim s) = w # ws" and "filter isAlnum w = c # cs"
  shows "camelCase (JString s)
           = (toLowerChar c # cs) @ join [] (filter (\<lambda>word. word \<noteq> []) (mapIndexed camelWord 1 ws))"
proof -
  have "trim s \<noteq> []" using assms(1) filteredWords_Nil by auto
  moreover have "camelWord w 0 = toLowerChar c # cs"
    using assms(2) by (simp add: camelWord_def charAt_def slice_def toLowerCase_def)
  ultimately show ?thesis
    using assms(1) by (simp add: camelCase_def join_empty_sep)
qed

subsection \<open>Converting twice\<close>

lemma hyphen_separator: "isSeparator (CHR ''-'')"
  by (simp add: isSeparator_def)

lemma hyphen_not_upper: "\<not> isUpper (CHR ''-'')"
  by (simp add: isUpper_def)

lemma toKebabCase_idem: "toKebabCase (JString (toKebabCase input)) = toKebabCase input"
proof (cases input)
  case (JString s)
  let ?L = "map toLowerCase (wordsBetween isSeparator (insertCaseBoundaries s))"
  have out: "toKebabCase input = join ''-'' ?L"
    by (simp add: JString toKebabCase_words replaceCamelBoundary_eq)
  have L: "\<forall>w\<in>set ?L. w \<noteq> [] \<and> (\<forall>c\<in>set w. \<not> isSeparator c)"
    by (auto simp: toLowerCase_def toLowerChar_separator
        dest: wordsBetween_nonempty wordsBetween_no_sep)
  have "\<forall>c\<in>set (join ''-'' ?L). \<not> isUpper c"
  proof
    fix c assume "c \<in> set (join ''-'' ?L)"
    then have "c \<in> set ''-'' \<union> \<Union>(set ` set ?L)"
      using set_join [of "''-''" ?L] by blast
    then show "\<not> isUpper c"
      by (auto simp: toLowerCase_def toLowerChar_not_upper hyphen_not_upper)
  qed
  then have b: "insertCaseBoundaries (join ''-'' ?L) = join ''-'' ?L"
    by (rule insertCaseBoundaries_no_upper)
  have w: "wordsBetween isSeparator (join ''-'' ?L) = ?L"
    using L by (intro wordsBetween_join) (simp_all add: hyphen_separator)
  have l: "map toLowerCase ?L = ?L"
    by (simp add: toLowerCase_def toLowerChar_idem)
  have "toKebabCase (JString (join ''-'' ?L))
      = join ''-'' (map toLowerCase (wordsBetween isSeparator
          (insertCaseBoundaries (join ''-'' ?L))))"
    by (simp only: toKebabCase_words replaceCamelBoundary_eq)
  also have "\<dots> = join ''-'' ?L"
    by (simp only: b w l)
  finally show ?thesis by (simp only: out)
qed (simp_all add: toKebabCase_def)

lemma camelCase_idem:
  assumes "(case filteredWords (trim s) of [] \<Rightarrow> True | w # ws \<Rightarrow> filter isAlnum w \<noteq> [])"
  shows "camelCase (JString (camelCase (JString s))) = camelCase (JString s)"
proof (cases "filteredWords (trim s)")
  case Nil
  then have "camelCase (JString s) = []" by (simp add: camelCase_def Let_def)
  then show ?thesis by (simp add: camelCase_def trim_def)
next
  case (Cons w ws)
  with assms obtain c cs where "filter isAlnum w = c # cs"
    by (cases "filter isAlnum w") simp_all
  from camelCase_first_word [OF Cons this] obtain rest
    where out: "camelCase (JString s) = toLowerChar c # rest" by auto
  have "\<forall>x\<in>set (camelCase (JString s)). isAlnum x" using camelCase_chars by blast
  then have "camelCase (JString (camelCase (JString s)))
      = toLowerCase (charAt (camelCase (JString s)) 0) @ slice (camelCase (JString s)) 1"
    by (rule camelCase_alnum)
  then show ?thesis
    by (simp add: out charAt_def slice_def toLowerCase_def toLowerChar_idem)
qed

lemma dot_not_alnum: "\<not> isAlnum (CHR ''.'')"
  by (simp add: isAlnum_def isLower_def isUpper_def isDigit_def)

lemma dot_not_separator: "\<not> isSeparator (CHR ''.'')"
  by (simp add: isSeparator_def isWhiteSpace_def)

lemma dotCase_of_dotted:
  assumes "\<forall>c\<in>set x. isLower c \<or> isDigit c \<or> c = CHR ''.''"
  shows "dotCase (JString x) = filter (\<lambda>c. c \<noteq> CHR ''.'') x"
proof -
  have "\<not> isSeparator c" if "c \<in> set x" for c
    using assms that dot_not_separator alnum_not_separator [of c] by (auto simp: isAlnum_def)
  then have "\<forall>c\<in>set x. \<not> isSeparator c" by blast
  then have w: "wordsBetween isSeparator x = (if x = [] then [] else [x])"
    by (rule wordsBetween_free)
  have "\<forall>c\<in>set x. isAlnum c = (c \<noteq> CHR ''.'')"
    using assms dot_not_alnum by (auto simp: isAlnum_def)
  then have f: "filter isAlnum x = filter (\<lambda>c. c \<noteq> CHR ''.'') x"
    by (intro filter_cong) simp_all
  have "toLowerCase (filter (\<lambda>c. c \<noteq> CHR ''.'') x) = filter (\<lambda>c. c \<noteq> CHR ''.'') x"
    using assms by (intro toLowerCase_fix) auto
  then show ?thesis
    by (simp add: dotCase_words w dotWord_def f)
qed

lemma dotCase_twice:
  "dotCase (JString (dotCase input)) = filter (\<lambda>c. c \<noteq> CHR ''.'') (dotCase input)"
  by (intro dotCase_of_dotted ballI dotCase_chars)

section \<open>The claims\<close>

text \<open>
  C1 says that the camel style lowercases the first word in full, as the test table of
  \<^verbatim>\<open>refined_promot.js\<close> expects (\<^verbatim>\<open>'HELLO'\<close> gives \<^verbatim>\<open>'hello'\<close>). Line 68 lowercases only
  the first character of the first word and keeps the rest: on \<^verbatim>\<open>'HELLO'\<close> the function
  returns \<^verbatim>\<open>'hELLO'\<close>, which is not the word lowercased in full.
\<close>

theorem camelCase_first_word_rest_kept:
  "camelCase (JString ''HELLO'') = ''hELLO''
   \<and> camelCase (JString ''HELLO'') \<noteq> toLowerCase ''HELLO''"
  by code_simp

text \<open>
  C2 says that every converter puts a word boundary between a lower-case letter and an
  upper-case letter right behind it. \<^verbatim>\<open>dotCase\<close> does not: it splits at separators only, and
  \<^verbatim>\<open>'firstName'\<close> stays one word.
\<close>

theorem case_boundary_not_in_dotCase:
  "dotCase (JString ''firstName'') = ''firstname''
   \<and> dotCase (JString ''firstName'') \<noteq> ''first.name''
   \<and> dotCase (JString ''firstName'')
       \<noteq> join ''.'' (map toLowerCase (cleanedWords (insertCaseBoundaries ''firstName'')))"
  by code_simp

text \<open>
  C2 as amended: in \<^verbatim>\<open>toKebabCase\<close> the replacement of line 20 puts a boundary between every
  lower-case letter and an upper-case letter right behind it and nowhere else, so the
  output is the lower-cased words between the separators of the string with these
  boundaries. Lower-case letters followed by upper-case letters make two words, a run of
  upper-case letters stays one word, and \<^verbatim>\<open>'firstName'\<close> gives \<^verbatim>\<open>'first-name'\<close>. \<^verbatim>\<open>dotCase\<close> and
  \<^verbatim>\<open>camelCase\<close> have no case boundary: a string of letters and digits is one word for them,
  whatever its casing.
\<close>

theorem kebab_case_boundaries:
  "replaceCamelBoundary s = insertCaseBoundaries s
   \<and> toKebabCase (JString s)
       = join ''-'' (map toLowerCase (wordsBetween isSeparator (insertCaseBoundaries s)))
   \<and> (u \<noteq> [] \<and> (\<forall>c\<in>set u. isLower c) \<and> v \<noteq> [] \<and> (\<forall>c\<in>set v. isUpper c)
        \<longrightarrow> toKebabCase (JString (u @ v)) = u @ ''-'' @ toLowerCase v)
   \<and> ((\<forall>c\<in>set s. isUpper c) \<longrightarrow> toKebabCase (JString s) = toLowerCase s)
   \<and> toKebabCase (JString ''firstName'') = ''first-name''
   \<and> ((\<forall>c\<in>set s. isAlnum c)
        \<longrightarrow> dotCase (JString s) = toLowerCase s
          \<and> camelCase (JString s) = toLowerCase (charAt s 0) @ slice s 1)"
proof -
  have "toKebabCase (JString s)
      = join ''-'' (map toLowerCase (wordsBetween isSeparator (insertCaseBoundaries s)))"
    by (simp add: toKebabCase_words replaceCamelBoundary_eq)
  moreover have "toKebabCase (JString ''firstName'') = ''first-name''" by code_simp
  ultimately show ?thesis
    using replaceCamelBoundary_eq [of s] toKebabCase_lower_upper [of u v]
      toKebabCase_upper_run [of s] dotCase_alnum [of s] camelCase_alnum [of s]
    by blast
qed

text \<open>The amended claim at \<^verbatim>\<open>'first'\<close> followed by \<^verbatim>\<open>'NAME'\<close>, and at \<^verbatim>\<open>'XML'\<close>.\<close>

theorem kebab_case_boundaries_witness:
  "toKebabCase (JString ''firstNAME'') = ''first-name''
   \<and> toKebabCase (JString ''XML'') = ''xml''
   \<and> dotCase (JString ''XML'') = ''xml''
   \<and> camelCase (JString ''XML'') = ''xML''"
proof -
  have u: "''first'' \<noteq> [] \<and> (\<forall>c\<in>set ''first''. isLower c)
      \<and> ''NAME'' \<noteq> [] \<and> (\<forall>c\<in>set ''NAME''. isUpper c)"
    by (simp add: isLower_def isUpper_def)
  have s: "\<forall>c\<in>set ''XML''. isUpper c" by (simp add: isUpper_def)
  have a: "\<forall>c\<in>set ''XML''. isAlnum c" by (simp add: isAlnum_def isUpper_def)
  have l: "toLowerCase ''NAME'' = ''name''" "toLowerCase ''XML'' = ''xml''"
    "toLowerCase (charAt ''XML'' 0) @ slice ''XML'' (Suc 0) = ''xML''"
    by code_simp+
  have "toKebabCase (JString (''first'' @ ''NAME'')) = ''first'' @ ''-'' @ toLowerCase ''NAME''
      \<and> toKebabCase (JString ''XML'') = toLowerCase ''XML''
      \<and> dotCase (JString ''XML'') = toLowerCase ''XML''
      \<and> camelCase (JString ''XML'') = toLowerCase (charAt ''XML'' 0) @ slice ''XML'' 1"
    using u s a kebab_case_boundaries [of "''XML''" "''first''" "''NAME''"] by blast
  then show ?thesis by (simp add: l)
qed

text \<open>
  C3 says that every converter strips what is not an ASCII letter or digit, so that
  \<^verbatim>\<open>'user@name!'\<close> becomes \<^verbatim>\<open>'userName'\<close> in camel style and the kebab output holds no symbol.
  \<^verbatim>\<open>toKebabCase\<close> has no cleaning step and returns \<^verbatim>\<open>'user@name!'\<close> as it is;
  \<^verbatim>\<open>camelCase\<close> strips the symbols inside the one word it sees and returns \<^verbatim>\<open>'username'\<close>.
\<close>

theorem symbols_not_stripped:
  "toKebabCase (JString ''user@name!'') = ''user@name!''
   \<and> camelCase (JString ''user@name!'') = ''username''"
  by code_simp

text \<open>
  C4 says that each converter applied to its own output gives that output again.
  \<^verbatim>\<open>dotCase\<close> does not: the dot is no separator and is stripped as a symbol, so
  \<^verbatim>\<open>'hello.world'\<close> becomes \<^verbatim>\<open>'helloworld'\<close>. Nor does \<^verbatim>\<open>camelCase\<close> on \<^verbatim>\<open>'@ hello'\<close>: the word
  at index 0 cleans to nothing, so \<^verbatim>\<open>'hello'\<close> is capitalised as a later word, and the
  output \<^verbatim>\<open>'Hello'\<close> converts to \<^verbatim>\<open>'hello'\<close>.
\<close>

theorem dotCase_not_idempotent:
  "dotCase (JString (dotCase (JString ''hello world''))) \<noteq> dotCase (JString ''hello world'')
   \<and> dotCase (JString ''hello world'') = ''hello.world''
   \<and> dotCase (JString (dotCase (JString ''hello world''))) = ''helloworld''
   \<and> camelCase (JString (camelCase (JString ''@ hello''))) \<noteq> camelCase (JString ''@ hello'')
   \<and> camelCase (JString ''@ hello'') = ''Hello''
   \<and> camelCase (JString (camelCase (JString ''@ hello''))) = ''hello''"
  by code_simp

text \<open>
  C4 as amended: \<^verbatim>\<open>toKebabCase\<close> applied to its own output gives that output again, for
  every argument. So does \<^verbatim>\<open>camelCase\<close> on a string that has no word or whose first word
  holds a letter or digit. \<^verbatim>\<open>dotCase\<close> applied to its own output gives that output without
  its dots.
\<close>

theorem idempotence_by_style:
  "toKebabCase (JString (toKebabCase input)) = toKebabCase input
   \<and> ((case filteredWords (trim s) of [] \<Rightarrow> True | w # ws \<Rightarrow> filter isAlnum w \<noteq> [])
        \<longrightarrow> camelCase (JString (camelCase (JString s))) = camelCase (JString s))
   \<and> dotCase (JString (dotCase input)) = filter (\<lambda>c. c \<noteq> CHR ''.'') (dotCase input)"
  using toKebabCase_idem [of input] camelCase_idem [of s] dotCase_twice [of input] by blast

text \<open>The amended claim at \<^verbatim>\<open>'hello big_world'\<close>, whose first word is \<^verbatim>\<open>'hello'\<close>.\<close>

theorem idempotence_by_style_witness:
  "(case filteredWords (trim ''hello big_world'') of [] \<Rightarrow> True
      | w # ws \<Rightarrow> filter isAlnum w \<noteq> [])
   \<and> camelCase (JString ''hello big_world'') = ''helloBigWorld''
   \<and> camelCase (JString (camelCase (JString ''hello big_world''))) = ''helloBigWorld''
   \<and> toKebabCase (JString (toKebabCase (JString ''hello big_world''))) = ''hello-big-world''
   \<and> dotCase (JString (dotCase (JString ''hello big_world''))) = ''hellobigworld''"
proof -
  have h: "(case filteredWords (trim ''hello big_world'') of [] \<Rightarrow> True
      | w # ws \<Rightarrow> filter isAlnum w \<noteq> [])"
    by code_simp
  have c: "camelCase (JString ''hello big_world'') = ''helloBigWorld''" by code_simp
  have k: "toKebabCase (JString ''hello big_world'') = ''hello-big-world''" by code_simp
  have d: "filter (\<lambda>c. c \<noteq> CHR ''.'') (dotCase (JString ''hello big_world'')) = ''hellobigworld''"
    by code_simp
  have "camelCase (JString (camelCase (JString ''hello big_world'')))
          = camelCase (JString ''hello big_world'')
      \<and> toKebabCase (JString (toKebabCase (JString ''hello big_world'')))
          = toKebabCase (JString ''hello big_world'')
      \<and> dotCase (JString (dotCase (JString ''hello big_world'')))
          = filter (\<lambda>c. c \<noteq> CHR ''.'') (dotCase (JString ''hello big_world''))"
    using h idempotence_by_style [of "JString ''hello big_world''" "''hello big_world''"]
    by blast
  then show ?thesis using h by (simp only: c k d simp_thms)
qed

text \<open>
  C5: on \<^verbatim>\<open>null\<close>, \<^verbatim>\<open>undefined\<close>, any other value that is not a string, the empty string and a
  string of white space only, each of the three converters returns the empty string. The
  converters are total functions into strings: no branch raises.
\<close>

theorem degenerate_input_empty:
  assumes "(\<forall>s. input \<noteq> JString s) \<or> (\<exists>s. input = JString s \<and> (\<forall>c\<in>set s. isWhiteSpace c))"
  shows "toKebabCase input = [] \<and> camelCase input = [] \<and> dotCase input = []"
  using assms non_string_empty whitespace_only_empty by blast

text \<open>The inputs the claim names: \<^verbatim>\<open>null\<close>, \<^verbatim>\<open>undefined\<close>, a number, \<^verbatim>\<open>""\<close> and \<^verbatim>\<open>"   "\<close>.\<close>

theorem degenerate_input_empty_witness:
  "(toKebabCase JNull = [] \<and> camelCase JNull = [] \<and> dotCase JNull = [])
   \<and> (toKebabCase JUndefined = [] \<and> camelCase JUndefined = [] \<and> dotCase JUndefined = [])
   \<and> (toKebabCase (JNumber 42) = [] \<and> camelCase (JNumber 42) = [] \<and> dotCase (JNumber 42) = [])
   \<and> (toKebabCase (JString []) = [] \<and> camelCase (JString []) = [] \<and> dotCase (JString []) = [])
   \<and> (toKebabCase (JString ''   '') = [] \<and> camelCase (JString ''   '') = []
        \<and> dotCase (JString ''   '') = [])"
proof -
  have n: "(\<forall>s. JNull \<noteq> JString s) \<or> (\<exists>s. JNull = JString s \<and> (\<forall>c\<in>set s. isWhiteSpace c))"
    by simp
  have u: "(\<forall>s. JUndefined \<noteq> JString s)
      \<or> (\<exists>s. JUndefined = JString s \<and> (\<forall>c\<in>set s. isWhiteSpace c))"
    by simp
  have k: "(\<forall>s. JNumber 42 \<noteq> JString s)
      \<or> (\<exists>s. JNumber 42 = JString s \<and> (\<forall>c\<in>set s. isWhiteSpace c))"
    by simp
  have e: "(\<forall>s. JString [] \<noteq> JString s)
      \<or> (\<exists>s. JString [] = JString s \<and> (\<forall>c\<in>set s. isWhiteSpace c))"
    by simp
  have w: "(\<forall>s. JString ''   '' \<noteq> JString s)
      \<or> (\<exists>s. JString ''   '' = JString s \<and> (\<forall>c\<in>set s. isWhiteSpace c))"
    by (simp add: isWhiteSpace_def)
  show ?thesis
    using degenerate_input_empty [OF n] degenerate_input_empty [OF u]
      degenerate_input_empty [OF k] degenerate_input_empty [OF e] degenerate_input_empty [OF w]
    by blast
qed

text \<open>
  C6: a non-empty run of spaces, hyphens and underscores, in any mixture, between two
  parts of the input gives the same output as a single space, hyphen or underscore in
  its place, in each of the three converters; and \<^verbatim>\<open>'  multiple   separators---here__'\<close>
  gives \<^verbatim>\<open>'multipleSeparatorsHere'\<close> in camel style.
\<close>

theorem separator_runs_collapse:
  assumes "run \<noteq> []"
    and "\<forall>c\<in>set run. c = CHR '' '' \<or> c = CHR ''-'' \<or> c = CHR ''_''"
    and "sep = CHR '' '' \<or> sep = CHR ''-'' \<or> sep = CHR ''_''"
  shows "toKebabCase (JString (u @ run @ v)) = toKebabCase (JString (u @ [sep] @ v))
     \<and> camelCase (JString (u @ run @ v)) = camelCase (JString (u @ [sep] @ v))
     \<and> dotCase (JString (u @ run @ v)) = dotCase (JString (u @ [sep] @ v))
     \<and> camelCase (JString ''  multiple   separators---here__'') = ''multipleSeparatorsHere''"
proof -
  have run: "\<forall>c\<in>set run. isSeparator c" using assms(2) by (auto intro: plain_separator)
  have sep: "isSeparator sep" using assms(3) by (rule plain_separator)
  have "camelCase (JString ''  multiple   separators---here__'') = ''multipleSeparatorsHere''"
    by code_simp
  then show ?thesis
    by (simp only: toKebabCase_words camelCase_words dotCase_words replaceCamelBoundary_eq
        words_run_collapse [OF assms(1) run sep]
        boundary_words_run_collapse [OF assms(1) run sep] simp_thms)
qed

text \<open>The run \<^verbatim>\<open>' _-- '\<close> between \<^verbatim>\<open>'multiple'\<close> and \<^verbatim>\<open>'separators'\<close>, against one hyphen.\<close>

theorem separator_runs_collapse_witness:
  "toKebabCase (JString ''multiple _-- separators'') = toKebabCase (JString ''multiple-separators'')
   \<and> camelCase (JString ''multiple _-- separators'') = camelCase (JString ''multiple-separators'')
   \<and> dotCase (JString ''multiple _-- separators'') = dotCase (JString ''multiple-separators'')
   \<and> camelCase (JString ''  multiple   separators---here__'') = ''multipleSeparatorsHere''"
proof -
  have r: "'' _-- '' \<noteq> []" by simp
  have a: "\<forall>c\<in>set '' _-- ''. c = CHR '' '' \<or> c = CHR ''-'' \<or> c = CHR ''_''" by simp
  have s: "CHR ''-'' = CHR '' '' \<or> CHR ''-'' = CHR ''-'' \<or> CHR ''-'' = CHR ''_''" by simp
  show ?thesis
    using separator_runs_collapse [OF r a s, of "''multiple''" "''separators''"] by simp
qed

text \<open>
  C8: \<^verbatim>\<open>dotCase\<close> returns the cleaned words of its input, each lowercased, joined with a
  dot; every character of its output is a lower-case letter, a digit or the dot, so no
  letter of the output is upper-case; and \<^verbatim>\<open>'hello world'\<close> gives \<^verbatim>\<open>'hello.world'\<close>.
\<close>

theorem dotCase_lowercase_joined:
  "dotCase (JString s) = join ''.'' (map toLowerCase (cleanedWords s))
   \<and> (\<forall>c\<in>set (dotCase input). isLower c \<or> isDigit c \<or> c = CHR ''.'')
   \<and> dotCase (JString ''hello world'') = ''hello.world''"
proof -
  have "dotCase (JString ''hello world'') = ''hello.world''" by code_simp
  then show ?thesis
    using dotCase_chars by (simp add: dotCase_cleanedWords)
qed

text \<open>The letter w in the output for \<^verbatim>\<open>'Hello_World'\<close>.\<close>

theorem dotCase_lowercase_joined_witness:
  "CHR ''w'' \<in> set (dotCase (JString ''Hello_World''))
   \<and> (isLower (CHR ''w'') \<or> isDigit (CHR ''w'') \<or> CHR ''w'' = CHR ''.'')
   \<and> dotCase (JString ''Hello_World'') = join ''.'' (map toLowerCase (cleanedWords ''Hello_World''))"
proof -
  have m: "CHR ''w'' \<in> set (dotCase (JString ''Hello_World''))" by code_simp
  show ?thesis
    using m dotCase_lowercase_joined [of "''Hello_World''" "JString ''Hello_World''"] by blast
qed

text \<open>
  C9 says that \<^verbatim>\<open>camelCase\<close> lowercases the first character of the first cleaned word of
  every string input and keeps the rest of that word. It does not when the word at index 0
  cleans to nothing: in \<^verbatim>\<open>'@ hello'\<close> the first cleaned word is \<^verbatim>\<open>'hello'\<close>, which stands at
  index 1 and is capitalised by line 72, so the function returns \<^verbatim>\<open>'Hello'\<close>.
\<close>

theorem camelCase_first_cleaned_word_capitalised:
  "cleanedWords ''@ hello'' = [''hello'']
   \<and> camelCase (JString ''@ hello'') = ''Hello''
   \<and> camelCase (JString ''@ hello'') \<noteq> toLowerChar (CHR ''h'') # ''ello''"
  by code_simp

text \<open>
  C9 as amended: when the word at index 0 of a string input still holds a letter or digit
  after cleaning, and cleaned is \<open>c # cs\<close>, then \<open>c # cs\<close> is the first cleaned word of the
  input and \<^verbatim>\<open>camelCase\<close> returns the lower-cased \<open>c\<close>, then \<open>cs\<close> as it is, then the later
  words as lines 62 to 72 cast them. Only the first character of that word is lowercased.
\<close>

theorem camelCase_first_word_first_char:
  assumes "filteredWords (trim s) = w # ws" and "filter isAlnum w = c # cs"
  shows "cleanedWords s = (c # cs) # filter (\<lambda>word. word \<noteq> []) (map (filter isAlnum) ws)
     \<and> camelCase (JString s)
           = (toLowerChar c # cs) @ join [] (filter (\<lambda>word. word \<noteq> []) (mapIndexed camelWord 1 ws))"
proof -
  have "wordsBetween isSeparator s = w # ws"
    using assms(1) by (simp add: filteredWords_trim)
  then have "cleanedWords s = (c # cs) # filter (\<lambda>word. word \<noteq> []) (map (filter isAlnum) ws)"
    using assms(2) by (simp add: cleanedWords_def)
  then show ?thesis
    using camelCase_first_word [OF assms] by simp
qed

text \<open>\<^verbatim>\<open>camelCase('AlreadyCamelCase')\<close> is \<^verbatim>\<open>'alreadyCamelCase'\<close>.\<close>

theorem camelCase_first_word_first_char_witness:
  "filteredWords (trim ''AlreadyCamelCase'') = [''AlreadyCamelCase'']
   \<and> filter isAlnum ''AlreadyCamelCase'' = ''AlreadyCamelCase''
   \<and> cleanedWords ''AlreadyCamelCase'' = [''AlreadyCamelCase'']
   \<and> camelCase (JString ''AlreadyCamelCase'') = ''alreadyCamelCase''"
proof -
  have f: "filteredWords (trim ''AlreadyCamelCase'') = ''AlreadyCamelCase'' # []" by code_simp
  have a: "filter isAlnum ''AlreadyCamelCase'' = CHR ''A'' # ''lreadyCamelCase''" by code_simp
  have l: "toLowerChar (CHR ''A'') = CHR ''a''" by code_simp
  show ?thesis
    using f a camelCase_first_word_first_char [OF f a] by (simp add: l)
qed

text \<open>
  C10: for every argument, \<^verbatim>\<open>toCamelCase\<close> returns \<^verbatim>\<open>undefined\<close>, not a string: its body
  is empty.
\<close>

theorem toCamelCase_undefined: "toCamelCase str = JUndefined"
  by (simp add: toCamelCase_def)

end
